theory Spec2Isabelle
  imports Main "HOL-Library.Sublist"
begin

section \<open>Data model\<close>

text \<open>
  A tool call is the dictionary the chat model returns for each requested tool:
  \<^verbatim>\<open>{'name': ..., 'args': ..., 'id': ..., 'type': 'tool_call'}\<close>.
  The arguments are opaque to the orchestration code and are kept as text.
\<close>

record tool_call =
  call_name :: string
  call_args :: string
  call_id :: string

text \<open>
  The three kinds of message the notebooks put into the state: the user's text
  (\<^verbatim>\<open>("user", query)\<close>), the model's answer with its tool calls, and a tool
  result carrying its content and the id of the call it answers.
\<close>

datatype message =
    HumanMessage string
  | AIMessage string "tool_call list"
  | ToolMessage string string

text \<open>
  \<^verbatim>\<open>class State(TypedDict): messages: Annotated[list, add_messages]\<close>
\<close>

record State =
  messages :: "message list"

datatype error =
    IndexError
  | AttributeError
  | UpstreamModelError
  | NoPendingCheckpointError
  | MismatchedResumeError
  | ValueError

text \<open>
  Reading the attribute \<^verbatim>\<open>tool_calls\<close>: only the model's message has it; on the
  other kinds of message the attribute lookup raises.
\<close>

fun get_tool_calls :: "message \<Rightarrow> error + tool_call list" where
  "get_tool_calls (AIMessage c tcs) = Inr tcs"
| "get_tool_calls (HumanMessage c) = Inl AttributeError"
| "get_tool_calls (ToolMessage c i) = Inl AttributeError"

section \<open>The router of the ask-the-user notebook\<close>

text \<open>
  The nodes of the graph: \<^verbatim>\<open>"agent"\<close>, \<^verbatim>\<open>"ask_user"\<close>, \<^verbatim>\<open>"tool_node"\<close> and the
  end marker \<^verbatim>\<open>END\<close>. \<^verbatim>\<open>routing_condition\<close> returns one of the last three, and the
  path map \<^verbatim>\<open>{END: END, "ask_user": "ask_user", "tool_node": "tool_node"}\<close> sends each
  to the node of the same name.
\<close>

datatype node = agent | ask_user | tool_node | END

text \<open>
  \<^verbatim>\<open>
  def routing_condition(state):
      messages = state["messages"]
      last_message = messages[-1]
      if not last_message.tool_calls:
          return END
      elif last_message.tool_calls[0]["name"] == "AskUser":
          return "ask_user"
      else:
          return "tool_node"
  \<close>
  \<^verbatim>\<open>messages[-1]\<close> raises on the empty list; \<^verbatim>\<open>tool_calls[0]\<close> is only read
  when the list is not empty.
\<close>

definition routing_condition :: "'a State_scheme \<Rightarrow> error + node" where
  "routing_condition state =
     (let msgs = messages state in
      if msgs = [] then Inl IndexError
      else
        let last_message = last msgs in
        case get_tool_calls last_message of
          Inl e \<Rightarrow> Inl e
        | Inr tcs \<Rightarrow>
            if tcs = [] then Inr END
            else if call_name (tcs ! 0) = ''AskUser'' then Inr ask_user
            else Inr tool_node)"

section \<open>The current-date tool\<close>

text \<open>
  \<^verbatim>\<open>
  @tool
  def get_current_date():
      """Returns the current date and time. Use this tool first for any time-based queries."""
      return f"The current date is: {datetime.now().strftime('%d %B %Y')}"
  \<close>
  The function takes no argument but reads the system clock. The reading of the clock,
  the value of \<^verbatim>\<open>datetime.now()\<close>, is made an explicit input of the model.
\<close>

record datetime =
  year :: nat
  month :: nat
  day :: nat
  hour :: nat
  minute :: nat
  second :: nat
  microsecond :: nat

text \<open>A \<^verbatim>\<open>datetime\<close> object keeps its fields inside these ranges.\<close>

definition valid_datetime :: "datetime \<Rightarrow> bool" where
  "valid_datetime t \<longleftrightarrow>
     1 \<le> year t \<and> year t \<le> 9999 \<and> 1 \<le> month t \<and> month t \<le> 12 \<and>
     1 \<le> day t \<and> day t \<le> 31 \<and> hour t < 24 \<and> minute t < 60 \<and> second t < 60 \<and>
     microsecond t < 1000000"

definition digit_char :: "nat \<Rightarrow> char" where
  "digit_char n = char_of (48 + n mod 10)"

text \<open>Decimal digits of a number, without padding (what \<^verbatim>\<open>%Y\<close> prints for a year).\<close>

fun decimal :: "nat \<Rightarrow> string" where
  "decimal n = (if n < 10 then [digit_char n] else decimal (n div 10) @ [digit_char n])"

declare decimal.simps [simp del]

text \<open>\<^verbatim>\<open>%d\<close>: the day of the month as two digits, padded with a zero.\<close>

definition two_digits :: "nat \<Rightarrow> string" where
  "two_digits n = [digit_char (n div 10), digit_char n]"

text \<open>\<^verbatim>\<open>%B\<close>: the full name of the month (in the default locale).\<close>

definition month_name :: "nat \<Rightarrow> string" where
  "month_name m =
     (if m = 1 then ''January'' else if m = 2 then ''February''
      else if m = 3 then ''March'' else if m = 4 then ''April''
      else if m = 5 then ''May'' else if m = 6 then ''June''
      else if m = 7 then ''July'' else if m = 8 then ''August''
      else if m = 9 then ''September'' else if m = 10 then ''October''
      else if m = 11 then ''November'' else if m = 12 then ''December''
      else [])"

text \<open>\<^verbatim>\<open>strftime('%d %B %Y')\<close>\<close>

definition strftime_d_B_Y :: "datetime \<Rightarrow> string" where
  "strftime_d_B_Y t = two_digits (day t) @ '' '' @ month_name (month t) @ '' '' @ decimal (year t)"

definition get_current_date :: "datetime \<Rightarrow> string" where
  "get_current_date now = ''The current date is: '' @ strftime_d_B_Y now"

text \<open>The number of a month from its name, the inverse of \<open>month_name\<close>.\<close>

definition month_number :: "string \<Rightarrow> nat" where
  "month_number s =
     (if s = ''January'' then 1 else if s = ''February'' then 2
      else if s = ''March'' then 3 else if s = ''April'' then 4
      else if s = ''May'' then 5 else if s = ''June'' then 6
      else if s = ''July'' then 7 else if s = ''August'' then 8
      else if s = ''September'' then 9 else if s = ''October'' then 10
      else if s = ''November'' then 11 else if s = ''December'' then 12
      else 0)"

section \<open>The nodes of the graph\<close>

text \<open>
  The chat model with the tools bound to it is an external collaborator: given the message
  history it returns the content and the tool calls of an assistant message, or the call
  fails (\<open>None\<close>).
\<close>

type_synonym chat_model = "message list \<Rightarrow> (string \<times> tool_call list) option"

text \<open>
  \<^verbatim>\<open>
  def agent_node(state: State):
      return {"messages": [llm_with_tools.invoke(state["messages"])]}
  \<close>
  (named \<^verbatim>\<open>chatbot\<close> in the other notebooks). The node returns the update of the
  \<^verbatim>\<open>messages\<close> channel; a failure of the model's client is the step's failure.
\<close>

definition agent_node :: "chat_model \<Rightarrow> 'a State_scheme \<Rightarrow> error + message list" where
  "agent_node llm_with_tools state =
     (case llm_with_tools (messages state) of
        None \<Rightarrow> Inl UpstreamModelError
      | Some (content, tool_calls) \<Rightarrow> Inr [AIMessage content tool_calls])"

text \<open>
  \<^verbatim>\<open>
  def ask_user_node(state: State):
      """Placeholder node for human interaction."""
      pass  # This node will be interrupted before execution
  \<close>
  It returns \<^verbatim>\<open>None\<close>: no update of the state.
\<close>

definition ask_user_node :: "'a State_scheme \<Rightarrow> message list" where
  "ask_user_node state = []"

text \<open>
  Modelled from the spec: \<^verbatim>\<open>add_messages\<close>, the reducer of the \<^verbatim>\<open>messages\<close> channel,
  belongs to the orchestration library and is not part of the notebooks. Section 3 of the
  specification: the messages are an ordered sequence, append-only; each step appends its
  messages to the state.
\<close>

definition add_messages :: "message list \<Rightarrow> message list \<Rightarrow> message list" where
  "add_messages left right = left @ right"

text \<open>
  A node's update is merged into the state through the reducer of its channel; the nodes of
  the notebooks update the \<^verbatim>\<open>messages\<close> channel only.
\<close>

definition apply_update :: "'a State_scheme \<Rightarrow> message list \<Rightarrow> 'a State_scheme" where
  "apply_update state update = state\<lparr>messages := add_messages (messages state) update\<rparr>"

text \<open>One execution of the model-invocation step: the node, then its update merged.\<close>

definition model_invocation_step ::
  "chat_model \<Rightarrow> 'a State_scheme \<Rightarrow> error + 'a State_scheme" where
  "model_invocation_step llm_with_tools state =
     (case agent_node llm_with_tools state of
        Inl e \<Rightarrow> Inl e
      | Inr update \<Rightarrow> Inr (apply_update state update))"

subsection \<open>Tool execution\<close>

text \<open>
  A tool takes the arguments of a call and returns its result (\<open>Inr\<close>) or raises;
  \<open>Inl\<close> carries the raised error as text. The registry maps tool names to tools.
\<close>

type_synonym tool = "string \<Rightarrow> string + string"
type_synonym registry = "string \<rightharpoonup> tool"

text \<open>
  Modelled from the spec: the input of the tool-execution step, which the library's
  \<^verbatim>\<open>ToolNode\<close> reads. Section 4.3: the pending tool calls on the latest assistant
  message; a state that does not end with an assistant message has none.
\<close>

definition pending_tool_calls :: "'a State_scheme \<Rightarrow> tool_call list" where
  "pending_tool_calls state =
     (if messages state = [] then []
      else case last (messages state) of
             AIMessage c tcs \<Rightarrow> tcs
           | HumanMessage c \<Rightarrow> []
           | ToolMessage c i \<Rightarrow> [])"

text \<open>
  Modelled from the spec: the content of the result message for a tool name that is not in
  the registry (section 7, UnknownToolError: recovered and encoded into the result
  message). The specification fixes no wording; the name of the error and of the tool are
  used.
\<close>

definition unknown_tool_description :: "string \<Rightarrow> string" where
  "unknown_tool_description n = ''UnknownToolError: '' @ n"

text \<open>
  Modelled from the spec: the execution of one tool call inside the library's
  \<^verbatim>\<open>ToolNode\<close>. Section 4.3: look the tool up by name in the registry, invoke it with
  the call's arguments, and wrap the returned value (or the raised error, as text) in a
  tool-result message referencing the call's id. Section 7: a name that is not in the
  registry is recovered the same way.
\<close>

definition run_tool_call :: "registry \<Rightarrow> tool_call \<Rightarrow> message" where
  "run_tool_call reg tc =
     (case reg (call_name tc) of
        None \<Rightarrow> ToolMessage (unknown_tool_description (call_name tc)) (call_id tc)
      | Some invoke \<Rightarrow>
          (case invoke (call_args tc) of
             Inr result \<Rightarrow> ToolMessage result (call_id tc)
           | Inl raised \<Rightarrow> ToolMessage raised (call_id tc)))"

text \<open>
  Modelled from the spec: \<^verbatim>\<open>ToolNode\<close> belongs to the orchestration library; the
  notebooks only construct it, from the tools alone
  (\<^verbatim>\<open>ToolNode(tools=[tavily_search])\<close>, \<^verbatim>\<open>ToolNode(tools=tools)\<close>). Section 4.3 of
  the specification: for each pending tool call, in order, one result message; the messages
  are the step's update of the state. The node is told of no clarification sentinel:
  \<^verbatim>\<open>AskUser\<close> is bound to the model but is not among the node's tools, so a call of
  that name that reaches the node is a call to a name that is not in its registry, and is
  answered as section 7 says of such names.
\<close>

definition ToolNode :: "registry \<Rightarrow> 'a State_scheme \<Rightarrow> message list" where
  "ToolNode reg state = map (run_tool_call reg) (pending_tool_calls state)"

section \<open>The graph and its execution\<close>

text \<open>
  What the notebooks configure: the model, the tools of the tool node, the conditional
  edge out of the agent node, and the nodes before which the run is interrupted
  (\<^verbatim>\<open>compile(checkpointer=memory, interrupt_before=[...])\<close>). The fixed edges are
  \<^verbatim>\<open>add_edge("tool_node", "agent")\<close>, \<^verbatim>\<open>add_edge("ask_user", "agent")\<close> and
  \<^verbatim>\<open>set_entry_point("agent")\<close>.
\<close>

record graph =
  llm_with_tools :: chat_model
  tools :: registry
  router :: "State \<Rightarrow> error + node"
  interrupt_before :: "node list"

text \<open>
  The graph of the ask-the-user notebook:
  \<^verbatim>\<open>add_conditional_edges("agent", routing_condition, ...)\<close> and
  \<^verbatim>\<open>compile(checkpointer=memory, interrupt_before=["ask_user"])\<close>.
\<close>

definition ask_user_graph :: "chat_model \<Rightarrow> registry \<Rightarrow> graph" where
  "ask_user_graph llm reg =
     \<lparr>llm_with_tools = llm, tools = reg, router = routing_condition,
      interrupt_before = [ask_user]\<rparr>"

text \<open>
  Modelled from the spec: \<^verbatim>\<open>tools_condition\<close> is the library's prebuilt conditional
  edge (\<^verbatim>\<open># Conditional edge to decide whether to use tools, this is a prebuilt conditional edge\<close>).
  Section 4.2 of the specification, rows 1 and 3 of the table; the notebooks that use it
  bind no clarification tool, so there is no sentinel row: a latest message with no tool
  calls ends the run, any other goes to the tool node. With no message in the state there
  is no latest message to inspect and the call raises.
\<close>

definition tools_condition :: "'a State_scheme \<Rightarrow> error + node" where
  "tools_condition state =
     (let msgs = messages state in
      if msgs = [] then Inl ValueError
      else
        case get_tool_calls (last msgs) of
          Inl e \<Rightarrow> Inr END
        | Inr tcs \<Rightarrow> if tcs = [] then Inr END else Inr tool_node)"

text \<open>
  The graph of the approval notebook, whose nodes are named \<^verbatim>\<open>chatbot\<close> and
  \<^verbatim>\<open>tools\<close> there:
  \<^verbatim>\<open>add_conditional_edges("chatbot", tools_condition)\<close>,
  \<^verbatim>\<open>add_edge("tools", "chatbot")\<close>, \<^verbatim>\<open>set_entry_point("chatbot")\<close> and
  \<^verbatim>\<open>compile(checkpointer=memory, interrupt_before=["tools"])\<close>.
\<close>

definition approval_graph :: "chat_model \<Rightarrow> registry \<Rightarrow> graph" where
  "approval_graph llm reg =
     \<lparr>llm_with_tools = llm, tools = reg, router = tools_condition,
      interrupt_before = [tool_node]\<rparr>"

text \<open>
  One node and the edge out of it: the new state and the next node, or the error the node
  (or the router behind the agent node) raised. The agent node is followed by the
  conditional edge, the tool node and the placeholder node by their edge to the agent.
\<close>

fun exec_node :: "graph \<Rightarrow> node \<Rightarrow> State \<Rightarrow> error + (State \<times> node)" where
  "exec_node g agent st =
     (case model_invocation_step (llm_with_tools g) st of
        Inl e \<Rightarrow> Inl e
      | Inr st' \<Rightarrow> (case router g st' of Inl e \<Rightarrow> Inl e | Inr n \<Rightarrow> Inr (st', n)))"
| "exec_node g tool_node st = Inr (apply_update st (ToolNode (tools g) st), agent)"
| "exec_node g ask_user st = Inr (apply_update st (ask_user_node st), agent)"
| "exec_node g END st = Inr (st, END)"

text \<open>How a run stands when the engine stops: at the end, suspended before a node, failed,
  or out of fuel.\<close>

datatype status = Terminated | Pending node | Failed error | Exhausted

text \<open>
  Modelled from the spec: the stopping rule of the engine that runs the graph
  (\<^verbatim>\<open>compile\<close>, \<^verbatim>\<open>stream\<close>), which belongs to the orchestration library. Section
  4.4 of the specification: the run ends when the router selects Terminate, and it is
  suspended, before anything of the next step executes, when that step is one the policy
  interrupts before. A resumed run does not stop again before the step it resumes at.
\<close>

definition halt :: "graph \<Rightarrow> bool \<Rightarrow> node \<Rightarrow> status option" where
  "halt g resuming n =
     (if n = END then Some Terminated
      else if \<not> resuming \<and> n \<in> set (interrupt_before g) then Some (Pending n)
      else None)"

text \<open>One more executed node, with the state after it, in front of the rest of a run.\<close>

definition emit ::
  "node \<times> State \<Rightarrow> (node \<times> State) list \<times> status \<times> State \<Rightarrow>
   (node \<times> State) list \<times> status \<times> State" where
  "emit ev r = (case r of (trace, s, st) \<Rightarrow> (ev # trace, s, st))"

text \<open>
  Modelled from the spec: the loop of the engine, which belongs to the orchestration
  library. Sections 2 and 5 of the specification: the steps run one after the other, each on
  the state the previous one left; a failing step ends the run with its error. The loop may
  go on for ever (a model that always asks for a tool), so it runs on fuel, one unit per
  executed node; \<open>Exhausted\<close> is the run that did not come to an end. The result is the
  list of executed nodes with the state after each (what
  \<^verbatim>\<open>stream(..., stream_mode="values")\<close> yields), the status and the last state.
\<close>

fun drive ::
  "graph \<Rightarrow> nat \<Rightarrow> bool \<Rightarrow> node \<Rightarrow> State \<Rightarrow> (node \<times> State) list \<times> status \<times> State" where
  "drive g 0 resuming n st =
     (case halt g resuming n of
        Some s \<Rightarrow> ([], s, st)
      | None \<Rightarrow> ([], Exhausted, st))"
| "drive g (Suc k) resuming n st =
     (case halt g resuming n of
        Some s \<Rightarrow> ([], s, st)
      | None \<Rightarrow>
          (case exec_node g n st of
             Inl e \<Rightarrow> ([], Failed e, st)
           | Inr (st', n') \<Rightarrow> emit (n, st') (drive g k False n' st')))"

section \<open>Checkpoints and the caller-facing operations\<close>

text \<open>
  Modelled from the spec: the checkpoint store (\<^verbatim>\<open>MemorySaver\<close>) belongs to the
  orchestration library. Sections 3 and 6 of the specification: a checkpoint is the latest
  state plus the marker of the step to run on resumption, keyed by the conversation
  identifier; at most one per identifier, the last write wins. The marker is the node the
  run stopped before: \<open>tool_node\<close> is awaiting tool dispatch, \<open>ask_user\<close> is
  awaiting the human, \<open>END\<close> is no pending step.
\<close>

type_synonym checkpoint = "State \<times> node"
type_synonym checkpoint_store = "string \<rightharpoonup> checkpoint"

text \<open>Modelled from the spec: \<^verbatim>\<open>load(conversation_id)\<close> of section 6.\<close>

definition load :: "checkpoint_store \<Rightarrow> string \<Rightarrow> checkpoint option" where
  "load store cid = store cid"

text \<open>Modelled from the spec: \<^verbatim>\<open>save(conversation_id, state, next_step)\<close> of section 6.\<close>

definition save :: "checkpoint_store \<Rightarrow> string \<Rightarrow> State \<Rightarrow> node \<Rightarrow> checkpoint_store" where
  "save store cid st nxt = store(cid \<mapsto> (st, nxt))"

text \<open>
  What the caller gets back (section 6): the final message, or the pending tool calls of a
  suspended run; an error raised to the caller; or, for the model only, the run that ran out
  of fuel.
\<close>

datatype response =
    FinalMessage message
  | PendingApproval string "tool_call list"
  | Raised error
  | OutOfFuel

text \<open>
  Modelled from the spec: how a run ends for the caller, which the library decides.
  Sections 4.4, 6 and 7: on Terminate and on suspension the checkpoint is persisted with its
  marker; a failed run persists nothing beyond what existed before the call. The final
  message is the last message of the state (\<^verbatim>\<open>s["messages"][-1]\<close> in
  \<^verbatim>\<open>process_stream\<close>).
\<close>

definition settle ::
  "checkpoint_store \<Rightarrow> string \<Rightarrow> (node \<times> State) list \<times> status \<times> State \<Rightarrow>
   checkpoint_store \<times> response \<times> (node \<times> State) list" where
  "settle store cid r =
     (case r of (trace, s, st) \<Rightarrow>
        (case s of
           Terminated \<Rightarrow>
             (save store cid st END,
              (if messages st = [] then Raised IndexError else FinalMessage (last (messages st))),
              trace)
         | Pending n \<Rightarrow> (save store cid st n, PendingApproval cid (pending_tool_calls st), trace)
         | Failed e \<Rightarrow> (store, Raised e, trace)
         | Exhausted \<Rightarrow> (store, OutOfFuel, trace)))"

text \<open>
  Modelled from the spec: \<^verbatim>\<open>run(conversation_id, user_message)\<close>, in the notebooks
  \<^verbatim>\<open>graph.stream({"messages": [("user", query)]}, config, stream_mode="values")\<close>,
  carried out by the library. Sections 2 and 6: the prior state of the conversation is
  loaded, or the empty state synthesised; the user's message is appended; the run starts at
  the entry point, the agent node.
\<close>

definition run ::
  "graph \<Rightarrow> nat \<Rightarrow> checkpoint_store \<Rightarrow> string \<Rightarrow> string \<Rightarrow>
   checkpoint_store \<times> response \<times> (node \<times> State) list" where
  "run g fuel store cid user_message =
     (let st0 = (case load store cid of None \<Rightarrow> \<lparr>messages = []\<rparr> | Some (st, nxt) \<Rightarrow> st);
          st1 = apply_update st0 [HumanMessage user_message]
      in settle store cid (drive g fuel False agent st1))"

text \<open>
  The human's answer to the pending clarification call, as the notebook builds it:
  \<^verbatim>\<open>
  tool_call_id = snapshot.values["messages"][-1].tool_calls[0]["id"]
  user_response = ToolMessage(content="For Singapore", tool_call_id=tool_call_id)
  graph.update_state(config, {"messages": [user_response]}, as_node="ask_user")
  \<close>
\<close>

definition human_response :: "State \<Rightarrow> string \<Rightarrow> error + message list" where
  "human_response snapshot text =
     (if messages snapshot = [] then Inl IndexError
      else case get_tool_calls (last (messages snapshot)) of
             Inl e \<Rightarrow> Inl e
           | Inr tcs \<Rightarrow>
               if tcs = [] then Inl IndexError
               else Inr [ToolMessage text (call_id (tcs ! 0))])"

text \<open>
  Modelled from the spec: \<^verbatim>\<open>resume(conversation_id, human_payload | None)\<close>, in the
  notebooks \<^verbatim>\<open>graph.stream(None, config, stream_mode="values")\<close>, carried out by the
  library. Sections 4.4 and 7: with no pending checkpoint the call fails with
  NoPendingCheckpointError. Awaiting the human, the caller's text is appended as the result
  of the pending call (as the node \<open>ask_user\<close>) and the run goes on with the
  model-invocation step. Awaiting tool dispatch, the caller supplies nothing and the run
  re-enters the step it stopped before. A payload that does not fit the pending step is a
  misuse of resume; it raises, and since the specification names no error for it, the
  model calls it \<open>MismatchedResumeError\<close>.
\<close>

definition resume ::
  "graph \<Rightarrow> nat \<Rightarrow> checkpoint_store \<Rightarrow> string \<Rightarrow> string option \<Rightarrow>
   checkpoint_store \<times> response \<times> (node \<times> State) list" where
  "resume g fuel store cid payload =
     (case load store cid of
        None \<Rightarrow> (store, Raised NoPendingCheckpointError, [])
      | Some (st, nxt) \<Rightarrow>
          if nxt = END then (store, Raised NoPendingCheckpointError, [])
          else if nxt = ask_user then
            (case payload of
               None \<Rightarrow> (store, Raised MismatchedResumeError, [])
             | Some text \<Rightarrow>
                 (case human_response st text of
                    Inl e \<Rightarrow> (store, Raised e, [])
                  | Inr update \<Rightarrow>
                      (let st1 = apply_update st update
                       in settle store cid (emit (ask_user, st1) (drive g fuel False agent st1)))))
          else
            (case payload of
               Some text \<Rightarrow> (store, Raised MismatchedResumeError, [])
             | None \<Rightarrow> settle store cid (drive g fuel True nxt st)))"

text \<open>A caller's request under one conversation identifier, and the store after it.\<close>

datatype request = Run string | Resume "string option"

definition serve :: "graph \<Rightarrow> nat \<Rightarrow> string \<Rightarrow> request \<Rightarrow> checkpoint_store \<Rightarrow> checkpoint_store" where
  "serve g fuel cid req store =
     (case req of
        Run user_message \<Rightarrow> fst (run g fuel store cid user_message)
      | Resume payload \<Rightarrow> fst (resume g fuel store cid payload))"

section \<open>Notions used in the statements\<close>



text \<open>A sequence of message lists in which each list extends the one before it.\<close>

fun append_only :: "message list list \<Rightarrow> bool" where
  "append_only (a # b # rest) \<longleftrightarrow> prefix a b \<and> append_only (b # rest)"
| "append_only [a] \<longleftrightarrow> True"
| "append_only [] \<longleftrightarrow> True"

section \<open>Example configurations\<close>

text \<open>
  Tool calls, tools and models for concrete runs: a search call as in the notebooks' outputs,
  a clarification call, and a call to a tool that raises; a model that asks for tools on the
  first turn and answers afterwards.
\<close>

definition search_call :: tool_call where
  "search_call = \<lparr>call_name = ''tavily_search_results_json'', call_args = ''current weather'',
                   call_id = ''call_1''\<rparr>"

definition ask_call :: tool_call where
  "ask_call = \<lparr>call_name = ''AskUser'', call_args = ''Which location?'', call_id = ''call_2''\<rparr>"

definition flaky_call :: tool_call where
  "flaky_call = \<lparr>call_name = ''flaky'', call_args = ''{}'', call_id = ''call_3''\<rparr>"

definition example_tools :: registry where
  "example_tools =
     [''tavily_search_results_json'' \<mapsto> (\<lambda>query. Inr ''sunny''),
      ''flaky'' \<mapsto> (\<lambda>arguments. Inl ''timeout'')]"

definition search_llm :: chat_model where
  "search_llm history =
     (if length history \<le> 1 then Some ('''', [search_call])
      else Some (''It is sunny.'', []))"



definition ask_then_search_llm :: chat_model where
  "ask_then_search_llm history =
     (if length history \<le> 1 then Some ('''', [ask_call, search_call])
      else Some (''It is sunny.'', []))"

lemmas engine_defs = run_def resume_def settle_def save_def load_def halt_def emit_def
  model_invocation_step_def agent_node_def apply_update_def add_messages_def
  ToolNode_def pending_tool_calls_def run_tool_call_def
  routing_condition_def ask_user_node_def human_response_def

section \<open>The router\<close>

text \<open>
  C1: when the latest message of the state is the assistant's message, the router follows
  the decision table, read in order: no tool calls, the end of the run; else the first
  tool call is named AskUser, the pause for the human (\<open>ask_user\<close>); else the
  tool-execution step (\<open>tool_node\<close>).
\<close>

theorem routing_condition_decision_table:
  assumes "messages state \<noteq> []" and "last (messages state) = AIMessage c tcs"
  shows "routing_condition state =
           Inr (if tcs = [] then END
                else if call_name (hd tcs) = ''AskUser'' then ask_user
                else tool_node)"
  using assms by (cases tcs) (simp_all add: routing_condition_def)

theorem routing_condition_decision_table_witness:
  "routing_condition \<lparr>messages = [HumanMessage ''Hello'', AIMessage ''Hi'' []]\<rparr> = Inr END
   \<and> routing_condition
       \<lparr>messages = [HumanMessage ''What is the weather?'',
          AIMessage '''' [\<lparr>call_name = ''AskUser'', call_args = ''location?'', call_id = ''call_0''\<rparr>]]\<rparr>
     = Inr ask_user
   \<and> routing_condition
       \<lparr>messages = [HumanMessage ''What is LangGraph?'',
          AIMessage '''' [\<lparr>call_name = ''tavily_search_results_json'', call_args = ''LangGraph'',
                           call_id = ''call_1''\<rparr>]]\<rparr>
     = Inr tool_node"
  using
    routing_condition_decision_table
      [of "\<lparr>messages = [HumanMessage ''Hello'', AIMessage ''Hi'' []]\<rparr>" "''Hi''" "[]"]
    routing_condition_decision_table
      [of "\<lparr>messages = [HumanMessage ''What is the weather?'',
          AIMessage '''' [\<lparr>call_name = ''AskUser'', call_args = ''location?'', call_id = ''call_0''\<rparr>]]\<rparr>"
        "''''" "[\<lparr>call_name = ''AskUser'', call_args = ''location?'', call_id = ''call_0''\<rparr>]"]
    routing_condition_decision_table
      [of "\<lparr>messages = [HumanMessage ''What is LangGraph?'',
          AIMessage '''' [\<lparr>call_name = ''tavily_search_results_json'', call_args = ''LangGraph'',
                           call_id = ''call_1''\<rparr>]]\<rparr>"
        "''''" "[\<lparr>call_name = ''tavily_search_results_json'', call_args = ''LangGraph'',
                           call_id = ''call_1''\<rparr>]"]
  by simp

text \<open>
  C10: when the latest message carries at least one tool call, the route depends on the
  name of the first call alone: the pause for the human exactly when that name is AskUser,
  the tool-execution step otherwise, whatever calls follow in the same turn (an AskUser
  call at a later position included); two states whose first calls have the same name get
  the same route.
\<close>

theorem routing_decided_by_first_tool_call:
  assumes "messages s1 \<noteq> []" and "last (messages s1) = AIMessage c1 (tc1 # rest1)"
    and "messages s2 \<noteq> []" and "last (messages s2) = AIMessage c2 (tc2 # rest2)"
  shows "(routing_condition s1 = Inr ask_user \<longleftrightarrow> call_name tc1 = ''AskUser'')
       \<and> (routing_condition s1 = Inr tool_node \<longleftrightarrow> call_name tc1 \<noteq> ''AskUser'')
       \<and> (call_name tc1 = call_name tc2 \<longrightarrow> routing_condition s1 = routing_condition s2)"
  using assms by (simp add: routing_condition_def)

theorem routing_decided_by_first_tool_call_witness:
  "routing_condition
     \<lparr>messages = [HumanMessage ''What is the weather?'',
        AIMessage ''''
          [\<lparr>call_name = ''tavily_search_results_json'', call_args = ''weather'', call_id = ''call_1''\<rparr>,
           \<lparr>call_name = ''AskUser'', call_args = ''location?'', call_id = ''call_2''\<rparr>]]\<rparr>
   = Inr tool_node
   \<and> routing_condition
     \<lparr>messages = [HumanMessage ''What is the weather?'',
        AIMessage ''''
          [\<lparr>call_name = ''tavily_search_results_json'', call_args = ''weather'', call_id = ''call_1''\<rparr>,
           \<lparr>call_name = ''AskUser'', call_args = ''location?'', call_id = ''call_2''\<rparr>]]\<rparr>
   = routing_condition
     \<lparr>messages = [AIMessage ''searching''
          [\<lparr>call_name = ''tavily_search_results_json'', call_args = ''LangGraph'', call_id = ''call_3''\<rparr>]]\<rparr>"
  using routing_decided_by_first_tool_call
    [of "\<lparr>messages = [HumanMessage ''What is the weather?'',
        AIMessage ''''
          [\<lparr>call_name = ''tavily_search_results_json'', call_args = ''weather'', call_id = ''call_1''\<rparr>,
           \<lparr>call_name = ''AskUser'', call_args = ''location?'', call_id = ''call_2''\<rparr>]]\<rparr>"
      "''''"
      "\<lparr>call_name = ''tavily_search_results_json'', call_args = ''weather'', call_id = ''call_1''\<rparr>"
      "[\<lparr>call_name = ''AskUser'', call_args = ''location?'', call_id = ''call_2''\<rparr>]"
      "\<lparr>messages = [AIMessage ''searching''
          [\<lparr>call_name = ''tavily_search_results_json'', call_args = ''LangGraph'', call_id = ''call_3''\<rparr>]]\<rparr>"
      "''searching''"
      "\<lparr>call_name = ''tavily_search_results_json'', call_args = ''LangGraph'', call_id = ''call_3''\<rparr>"
      "[]"]
  by (simp add: routing_condition_def)

section \<open>The model-invocation step\<close>

text \<open>
  C8: when the model answers, one execution of the model-invocation step appends exactly
  one message, the assistant's message made of the model's answer to the whole history,
  whatever its content and tool calls; the messages already in the state and every other
  field of the state are unchanged.
\<close>

theorem model_invocation_appends_one_message:
  assumes "llm (messages state) = Some (content, tool_calls)"
  shows "\<exists>state'. model_invocation_step llm state = Inr state'
           \<and> messages state' = messages state @ [AIMessage content tool_calls]
           \<and> State.more state' = State.more state"
  using assms
  by (simp add: model_invocation_step_def agent_node_def apply_update_def add_messages_def)

theorem model_invocation_appends_one_message_witness:
  "model_invocation_step (\<lambda>history. Some (''Hello!'', [])) \<lparr>messages = [HumanMessage ''Hi'']\<rparr>
   = Inr \<lparr>messages = [HumanMessage ''Hi'', AIMessage ''Hello!'' []]\<rparr>"
  using model_invocation_appends_one_message
    [of "\<lambda>history. Some (''Hello!'', [])" "\<lparr>messages = [HumanMessage ''Hi'']\<rparr>" "''Hello!''" "[]"]
  by auto

section \<open>The current-date tool: properties\<close>

lemma of_char_digit_char: "of_char (digit_char n) = (48 + n mod 10 :: nat)"
proof -
  have "n mod 10 < 10" by simp
  then have "48 + n mod 10 < 256" by linarith
  then show ?thesis by (simp add: digit_char_def)
qed

lemma digit_char_eq_iff: "digit_char a = digit_char b \<longleftrightarrow> a mod 10 = b mod 10"
proof
  assume "digit_char a = digit_char b"
  then have "of_char (digit_char a) = (of_char (digit_char b) :: nat)" by simp
  then show "a mod 10 = b mod 10"
    by (simp only: of_char_digit_char add_left_cancel)
next
  assume "a mod 10 = b mod 10"
  then show "digit_char a = digit_char b" by (simp add: digit_char_def)
qed

lemma digit_char_not_space: "digit_char n \<noteq> CHR '' ''"
proof
  assume "digit_char n = CHR '' ''"
  then have "of_char (digit_char n) = (of_char (CHR '' '') :: nat)" by simp
  then show False by (simp add: of_char_digit_char)
qed

lemma decimal_not_Nil: "decimal n \<noteq> []" "[] \<noteq> decimal n"
  by (subst decimal.simps, simp)+

lemma decimal_no_space: "CHR '' '' \<notin> set (decimal n)"
proof (induction n rule: decimal.induct)
  case (1 n)
  show ?case
  proof (cases "n < 10")
    case True
    then show ?thesis using digit_char_not_space [of n] by (subst decimal.simps) auto
  next
    case False
    then show ?thesis using 1 digit_char_not_space [of n] by (subst decimal.simps) auto
  qed
qed

lemma decimal_inj: "decimal a = decimal b \<Longrightarrow> a = b"
proof (induction a arbitrary: b rule: decimal.induct)
  case (1 a)
  show ?case
  proof (cases "a < 10")
    case a: True
    show ?thesis
    proof (cases "b < 10")
      case True
      with a 1(2) show ?thesis
        by (simp add: decimal.simps [of a] decimal.simps [of b] digit_char_eq_iff)
    next
      case False
      with a 1(2) show ?thesis
        by (simp add: decimal.simps [of a] decimal.simps [of b] decimal_not_Nil)
    qed
  next
    case a: False
    show ?thesis
    proof (cases "b < 10")
      case True
      with a 1(2) show ?thesis
        by (simp add: decimal.simps [of a] decimal.simps [of b] decimal_not_Nil)
    next
      case False
      with a 1(2) have "decimal (a div 10) = decimal (b div 10)" and m: "a mod 10 = b mod 10"
        by (simp_all add: decimal.simps [of a] decimal.simps [of b] digit_char_eq_iff)
      with 1(1) a have "a div 10 = b div 10" by blast
      with m show ?thesis by (metis div_mult_mod_eq)
    qed
  qed
qed

lemma two_digits_inj:
  assumes a: "a < 100" and b: "b < 100" and e: "two_digits a = two_digits b"
  shows "a = b"
proof -
  from e have "(a div 10) mod 10 = (b div 10) mod 10" and m: "a mod 10 = b mod 10"
    by (simp_all add: two_digits_def digit_char_eq_iff)
  with a b have "a div 10 = b div 10" by simp
  with m show ?thesis by (metis div_mult_mod_eq)
qed

lemma month_name_no_space: "CHR '' '' \<notin> set (month_name m)"
  by (simp add: month_name_def)

lemma month_number_name:
  assumes "1 \<le> m" "m \<le> 12"
  shows "month_number (month_name m) = m"
proof -
  from assms have "m = 1 \<or> m = 2 \<or> m = 3 \<or> m = 4 \<or> m = 5 \<or> m = 6 \<or> m = 7 \<or> m = 8
      \<or> m = 9 \<or> m = 10 \<or> m = 11 \<or> m = 12"
    by arith
  then show ?thesis
    by (elim disjE) (simp_all add: month_name_def month_number_def)
qed

lemma month_name_inj:
  assumes "1 \<le> a" "a \<le> 12" "1 \<le> b" "b \<le> 12" "month_name a = month_name b"
  shows "a = b"
proof -
  have "month_number (month_name a) = month_number (month_name b)"
    by (simp only: assms(5))
  then show ?thesis
    by (simp only: month_number_name [OF assms(1,2)] month_number_name [OF assms(3,4)])
qed

text \<open>
  C9, as stated, fails: two invocations on different days return different strings,
  because the function reads the system clock.
\<close>

theorem get_current_date_counterexample:
  "get_current_date \<lparr>year = 2024, month = 10, day = 13, hour = 9, minute = 0, second = 0,
       microsecond = 0\<rparr>
   \<noteq> get_current_date \<lparr>year = 2024, month = 10, day = 14, hour = 9, minute = 0, second = 0,
       microsecond = 0\<rparr>"
  by (simp add: get_current_date_def strftime_d_B_Y_def two_digits_def digit_char_def)

text \<open>
  C9, amended: the result of \<open>get_current_date\<close> is a function of the calendar date
  the system clock shows at the invocation, and of nothing else: two invocations return
  equal strings exactly when the clock shows the same day, month and year at both.
\<close>

theorem get_current_date_same_day:
  assumes "valid_datetime t1" and "valid_datetime t2"
  shows "get_current_date t1 = get_current_date t2
         \<longleftrightarrow> day t1 = day t2 \<and> month t1 = month t2 \<and> year t1 = year t2"
proof
  assume "day t1 = day t2 \<and> month t1 = month t2 \<and> year t1 = year t2"
  then show "get_current_date t1 = get_current_date t2"
    by (simp add: get_current_date_def strftime_d_B_Y_def)
next
  assume "get_current_date t1 = get_current_date t2"
  then have e: "two_digits (day t1) @ CHR '' '' # month_name (month t1) @ CHR '' '' # decimal (year t1)
       = two_digits (day t2) @ CHR '' '' # month_name (month t2) @ CHR '' '' # decimal (year t2)"
    by (simp add: get_current_date_def strftime_d_B_Y_def)
  have l: "length (two_digits (day t1)) = length (two_digits (day t2))"
    by (simp add: two_digits_def)
  from e l have d: "two_digits (day t1) = two_digits (day t2)"
    and r: "month_name (month t1) @ CHR '' '' # decimal (year t1)
          = month_name (month t2) @ CHR '' '' # decimal (year t2)"
    by simp_all
  from assms have "day t1 < 100" and "day t2 < 100"
    by (simp_all add: valid_datetime_def)
  with d have day: "day t1 = day t2" by (rule two_digits_inj [rotated 2])
  from r have "month_name (month t1) = month_name (month t2)
      \<and> decimal (year t1) = decimal (year t2)"
    by (rule iffD1 [OF append_Cons_eq_iff [OF month_name_no_space decimal_no_space]])
  then have mn: "month_name (month t1) = month_name (month t2)"
    and y: "decimal (year t1) = decimal (year t2)"
    by simp_all
  from assms mn have "month t1 = month t2"
    by (intro month_name_inj) (simp_all add: valid_datetime_def)
  with day y show "day t1 = day t2 \<and> month t1 = month t2 \<and> year t1 = year t2"
    by (simp add: decimal_inj)
qed

theorem get_current_date_same_day_witness:
  "valid_datetime \<lparr>year = 2024, month = 10, day = 13, hour = 9, minute = 0, second = 0,
       microsecond = 0\<rparr>
   \<and> valid_datetime \<lparr>year = 2024, month = 10, day = 13, hour = 23, minute = 59, second = 59,
       microsecond = 999999\<rparr>
   \<and> get_current_date \<lparr>year = 2024, month = 10, day = 13, hour = 9, minute = 0, second = 0,
       microsecond = 0\<rparr>
     = get_current_date \<lparr>year = 2024, month = 10, day = 13, hour = 23, minute = 59, second = 59,
       microsecond = 999999\<rparr>"
  using get_current_date_same_day
    [of "\<lparr>year = 2024, month = 10, day = 13, hour = 9, minute = 0, second = 0, microsecond = 0\<rparr>"
        "\<lparr>year = 2024, month = 10, day = 13, hour = 23, minute = 59, second = 59,
           microsecond = 999999\<rparr>"]
  by (simp add: valid_datetime_def)

section \<open>Steps and runs: auxiliary facts\<close>

lemma messages_apply_update: "messages (apply_update st u) = messages st @ u"
  by (simp add: apply_update_def add_messages_def)

lemma apply_update_eq: "apply_update st u = st\<lparr>messages := messages st @ u\<rparr>"
  by (simp add: apply_update_def add_messages_def)

lemma exec_node_extends:
  "exec_node g n st = Inr (st', n') \<Longrightarrow> prefix (messages st) (messages st')"
  by (cases n)
     (auto simp: model_invocation_step_def agent_node_def messages_apply_update
           split: option.splits sum.splits)

lemma fst_emit: "fst (emit ev r) = ev # fst r"
  by (simp add: emit_def split: prod.splits)

lemma snd_emit: "snd (emit ev r) = snd r"
  by (simp add: emit_def split: prod.splits)

lemma drive_append_only:
  "append_only (messages st # map (messages \<circ> snd) (fst (drive g k r n st)))"
proof (induction k arbitrary: r n st)
  case 0
  show ?case by (simp split: option.splits)
next
  case (Suc k)
  show ?case
  proof (cases "halt g r n")
    case (Some s)
    then show ?thesis by simp
  next
    case None
    show ?thesis
    proof (cases "exec_node g n st")
      case (Inl e)
      with None show ?thesis by simp
    next
      case (Inr p)
      obtain st' n' where p: "p = (st', n')" by (cases p)
      from Inr p have "prefix (messages st) (messages st')" by (simp add: exec_node_extends)
      with None Inr p Suc [of st' False n'] show ?thesis by (simp add: fst_emit)
    qed
  qed
qed

lemma drive_final:
  "snd (snd (drive g k r n st)) =
     (if fst (drive g k r n st) = [] then st else snd (last (fst (drive g k r n st))))"
proof (induction k arbitrary: r n st)
  case 0
  show ?case by (simp split: option.splits)
next
  case (Suc k)
  show ?case
  proof (cases "halt g r n")
    case (Some s)
    then show ?thesis by simp
  next
    case None
    show ?thesis
    proof (cases "exec_node g n st")
      case (Inl e)
      with None show ?thesis by simp
    next
      case (Inr p)
      obtain st' n' where p: "p = (st', n')" by (cases p)
      with None Inr Suc [of False n' st'] show ?thesis by (simp add: fst_emit snd_emit)
    qed
  qed
qed

lemma append_only_last: "append_only (x # xs) \<Longrightarrow> prefix x (last (x # xs))"
proof (induction xs arbitrary: x)
  case Nil
  show ?case by simp
next
  case (Cons y ys)
  then have "prefix x y" and "prefix y (last (y # ys))" by simp_all
  then show ?case by (simp add: prefix_order.trans [of x y])
qed

lemma drive_extends: "prefix (messages st) (messages (snd (snd (drive g k r n st))))"
proof (cases "fst (drive g k r n st) = []")
  case True
  then show ?thesis by (simp add: drive_final)
next
  case False
  have "prefix (messages st) (last (messages st # map (messages \<circ> snd) (fst (drive g k r n st))))"
    using drive_append_only by (rule append_only_last)
  with False show ?thesis by (simp add: drive_final last_map)
qed

lemma settle_trace: "snd (snd (settle store cid r)) = fst r"
  by (cases r) (simp add: settle_def split: status.splits)

lemma settle_store_other: "a \<noteq> b \<Longrightarrow> fst (settle store a r) b = store b"
  by (cases r) (simp add: settle_def save_def split: status.splits)

lemma settle_store_same:
  assumes "load store cid = Some (st, nxt)"
  shows "\<exists>st' nxt'. load (fst (settle store cid r)) cid = Some (st', nxt')
           \<and> (st' = st \<or> st' = snd (snd r))"
  using assms by (cases r) (simp add: settle_def save_def load_def split: status.splits)

lemma resume_cases:
  assumes "load store cid = Some (st, nxt)"
  shows "(\<exists>e. resume g fuel store cid payload = (store, Raised e, []))
       \<or> (\<exists>text update. human_response st text = Inr update
            \<and> resume g fuel store cid payload =
                settle store cid
                  (emit (ask_user, apply_update st update)
                     (drive g fuel False agent (apply_update st update))))
       \<or> resume g fuel store cid payload = settle store cid (drive g fuel True nxt st)"
  using assms by (auto simp: resume_def Let_def split: option.splits sum.splits)

lemma settle_append_only:
  assumes "load store cid = Some (st, nxt)"
    and "append_only (messages st # map (messages \<circ> snd) (fst r))"
    and "prefix (messages st) (messages (snd (snd r)))"
    and "settle store cid r = (store', response, trace)"
  shows "append_only (messages st # map (messages \<circ> snd) trace)
       \<and> (\<exists>st' nxt'. load store' cid = Some (st', nxt') \<and> prefix (messages st) (messages st'))"
proof -
  from assms(4) have t: "trace = fst r" and s: "store' = fst (settle store cid r)"
    using settle_trace [of store cid r] by simp_all
  from settle_store_same [OF assms(1), of r] obtain st' nxt'
    where "load (fst (settle store cid r)) cid = Some (st', nxt')"
      and "st' = st \<or> st' = snd (snd r)"
    by blast
  with assms(3) s have "load store' cid = Some (st', nxt') \<and> prefix (messages st) (messages st')"
    by auto
  with assms(2) t show ?thesis by blast
qed




lemma pending_of_turn:
  "messages st \<noteq> [] \<Longrightarrow> last (messages st) = AIMessage c tcs \<Longrightarrow> pending_tool_calls st = tcs"
  by (simp add: pending_tool_calls_def)

lemma tool_step:
  assumes "messages st \<noteq> []" and "last (messages st) = AIMessage c tcs"
  shows "exec_node g tool_node st =
           Inr (st\<lparr>messages := messages st @ map (run_tool_call (tools g)) tcs\<rparr>, agent)"
  using assms by (simp add: ToolNode_def pending_of_turn apply_update_eq)

lemma serve_other: "a \<noteq> b \<Longrightarrow> serve g fuel a req store b = store b"
proof (cases req)
  case (Run user_message)
  assume "a \<noteq> b"
  with Run show ?thesis by (simp add: serve_def run_def Let_def settle_store_other)
next
  case (Resume payload)
  assume ab: "a \<noteq> b"
  show ?thesis
  proof (cases "load store a")
    case None
    with Resume show ?thesis by (simp add: serve_def resume_def)
  next
    case (Some ck)
    obtain st nxt where "ck = (st, nxt)" by (cases ck)
    with Some resume_cases [of store a st nxt g fuel payload] ab Resume show ?thesis
      by (auto simp: serve_def settle_store_other)
  qed
qed

lemma routing_after_model:
  assumes "model_invocation_step llm st = Inr st'"
  shows "\<exists>n. routing_condition st' = Inr n"
proof -
  from assms obtain c tcs where "messages st' = messages st @ [AIMessage c tcs]"
    by (auto simp: model_invocation_step_def agent_node_def messages_apply_update
             split: option.splits sum.splits)
  then show ?thesis by (simp add: routing_condition_def)
qed

lemma exec_node_succeeds:
  assumes "\<forall>history. llm_with_tools g history \<noteq> None" and "router g = routing_condition"
  shows "\<exists>st' n'. exec_node g n st = Inr (st', n')"
proof (cases n)
  case agent
  from assms(1) obtain c tcs where "llm_with_tools g (messages st) = Some (c, tcs)"
    by (metis not_None_eq surj_pair)
  then obtain st' where m: "model_invocation_step (llm_with_tools g) st = Inr st'"
    by (simp add: model_invocation_step_def agent_node_def)
  from routing_after_model [OF m] obtain n' where "routing_condition st' = Inr n'" ..
  with m agent assms(2) show ?thesis by simp
qed simp_all

lemma drive_never_fails:
  assumes "\<forall>history. llm_with_tools g history \<noteq> None" and "router g = routing_condition"
  shows "fst (snd (drive g k r n st)) \<noteq> Failed e"
proof (induction k arbitrary: r n st)
  case 0
  show ?case by (simp add: halt_def)
next
  case (Suc k)
  from exec_node_succeeds [OF assms, of n st] obtain st' n'
    where e: "exec_node g n st = Inr (st', n')" by blast
  show ?case
  proof (cases "halt g r n")
    case None
    with e Suc [of False n' st'] show ?thesis by (simp add: snd_emit del: exec_node.simps)
  next
    case (Some s)
    then show ?thesis by (auto simp: halt_def split: if_splits)
  qed
qed



section \<open>The tool-execution step\<close>




text \<open>
  C3: when a tool requested in a turn raises, the tool-execution step still returns: it
  yields the result message of that call with the error as its content, every other
  requested tool still yields its own result message, the next step is the
  model-invocation step, and the run goes on from there. Whatever the tools do, a run whose
  model answers every call never ends in a failure: no error of a tool reaches the caller.
\<close>

theorem failing_tool_is_absorbed:
  assumes "messages st \<noteq> []" and "last (messages st) = AIMessage c tcs"
    and "failing \<in> set tcs"
    and "tools g (call_name failing) = Some invoke"
    and "invoke (call_args failing) = Inl raised"
  shows "\<exists>results.
           exec_node g tool_node st = Inr (st\<lparr>messages := messages st @ results\<rparr>, agent)
         \<and> results = map (run_tool_call (tools g)) tcs
         \<and> ToolMessage raised (call_id failing) \<in> set results
         \<and> (\<forall>tc \<in> set tcs. run_tool_call (tools g) tc \<in> set results)
         \<and> (resuming \<or> tool_node \<notin> set (interrupt_before g) \<longrightarrow>
              drive g (Suc k) resuming tool_node st
                = emit (tool_node, st\<lparr>messages := messages st @ results\<rparr>)
                    (drive g k False agent (st\<lparr>messages := messages st @ results\<rparr>)))
         \<and> ((\<forall>history. llm_with_tools g history \<noteq> None) \<and> router g = routing_condition \<longrightarrow>
              (\<forall>e. fst (snd (drive g (Suc k) resuming tool_node st)) \<noteq> Failed e))"
proof -
  let ?results = "map (run_tool_call (tools g)) tcs"
  have a: "exec_node g tool_node st = Inr (st\<lparr>messages := messages st @ ?results\<rparr>, agent)"
    using assms(1,2) by (rule tool_step)
  have "run_tool_call (tools g) failing = ToolMessage raised (call_id failing)"
    using assms(4,5) by (simp add: run_tool_call_def)
  moreover have "run_tool_call (tools g) failing \<in> set ?results"
    using assms(3) by simp
  ultimately have b: "ToolMessage raised (call_id failing) \<in> set ?results" by simp
  have c: "\<forall>tc \<in> set tcs. run_tool_call (tools g) tc \<in> set ?results"
    by simp
  have d: "resuming \<or> tool_node \<notin> set (interrupt_before g) \<longrightarrow>
              drive g (Suc k) resuming tool_node st
                = emit (tool_node, st\<lparr>messages := messages st @ ?results\<rparr>)
                    (drive g k False agent (st\<lparr>messages := messages st @ ?results\<rparr>))"
  proof
    assume "resuming \<or> tool_node \<notin> set (interrupt_before g)"
    then have "halt g resuming tool_node = None" by (auto simp: halt_def)
    with a show "drive g (Suc k) resuming tool_node st
                = emit (tool_node, st\<lparr>messages := messages st @ ?results\<rparr>)
                    (drive g k False agent (st\<lparr>messages := messages st @ ?results\<rparr>))"
      by (simp del: exec_node.simps)
  qed
  have f: "(\<forall>history. llm_with_tools g history \<noteq> None) \<and> router g = routing_condition \<longrightarrow>
              (\<forall>e. fst (snd (drive g (Suc k) resuming tool_node st)) \<noteq> Failed e)"
    using drive_never_fails by blast
  from a b c d f show ?thesis by blast
qed

theorem failing_tool_is_absorbed_witness:
  "example_tools (call_name flaky_call) = Some (\<lambda>arguments. Inl ''timeout'')
   \<and> exec_node (ask_user_graph search_llm example_tools) tool_node
        \<lparr>messages = [HumanMessage ''What is the weather?'',
           AIMessage '''' [flaky_call, search_call]]\<rparr>
     = Inr (\<lparr>messages = [HumanMessage ''What is the weather?'',
              AIMessage '''' [flaky_call, search_call],
              ToolMessage ''timeout'' ''call_3'', ToolMessage ''sunny'' ''call_1'']\<rparr>, agent)
   \<and> fst (snd (drive (ask_user_graph search_llm example_tools) 3 False tool_node
        \<lparr>messages = [HumanMessage ''What is the weather?'',
           AIMessage '''' [flaky_call, search_call]]\<rparr>)) = Terminated"
  using failing_tool_is_absorbed
    [of "\<lparr>messages = [HumanMessage ''What is the weather?'',
           AIMessage '''' [flaky_call, search_call]]\<rparr>"
        "''''" "[flaky_call, search_call]" flaky_call
        "ask_user_graph search_llm example_tools"
        "\<lambda>arguments. Inl ''timeout''" "''timeout''" False 2]
  by (simp add: engine_defs flaky_call_def search_call_def example_tools_def search_llm_def
        ask_user_graph_def eval_nat_numeral)

section \<open>Resuming a suspended run\<close>



text \<open>
  C5: resume for a conversation identifier with no pending checkpoint (none at all, or one
  whose marker is no pending step) fails with NoPendingCheckpointError, starts no run and
  leaves the store as it was, so that a second resume fails the same way.
\<close>

theorem resume_without_pending_checkpoint:
  assumes "load store cid = None \<or> (\<exists>st. load store cid = Some (st, END))"
  shows "resume g fuel store cid payload = (store, Raised NoPendingCheckpointError, [])
       \<and> resume g fuel' (fst (resume g fuel store cid payload)) cid payload'
           = (store, Raised NoPendingCheckpointError, [])"
  using assms by (auto simp: resume_def)

theorem resume_without_pending_checkpoint_witness:
  "load Map.empty ''nonexistent-id'' = None
   \<and> resume (ask_user_graph search_llm example_tools) 3 Map.empty ''nonexistent-id'' None
       = (Map.empty, Raised NoPendingCheckpointError, [])
   \<and> resume (ask_user_graph search_llm example_tools) 3
        (fst (resume (ask_user_graph search_llm example_tools) 3 Map.empty
                ''nonexistent-id'' None))
        ''nonexistent-id'' None
       = (Map.empty, Raised NoPendingCheckpointError, [])"
  using resume_without_pending_checkpoint
    [of Map.empty "''nonexistent-id''" "ask_user_graph search_llm example_tools" 3 None 3 None]
  by (simp add: load_def)

text \<open>
  C6: within a resumed run the messages are append-only: the message list after every step
  (the human's substitute response, a model invocation, a tool execution) extends the list
  before it, starting from the checkpoint's, and so does the list persisted at the end.
\<close>

theorem resumed_run_is_append_only:
  assumes "load store cid = Some (st, nxt)"
    and "resume g fuel store cid payload = (store', response, trace)"
  shows "append_only (messages st # map (messages \<circ> snd) trace)
       \<and> (\<exists>st' nxt'. load store' cid = Some (st', nxt') \<and> prefix (messages st) (messages st'))"
proof -
  note ck = assms(1)
  from resume_cases [OF assms(1), of g fuel payload]
  consider (raised) e where "resume g fuel store cid payload = (store, Raised e, [])"
    | (human) reply update where "human_response st reply = Inr update"
        "resume g fuel store cid payload =
           settle store cid
             (emit (ask_user, apply_update st update)
                (drive g fuel False agent (apply_update st update)))"
    | (proceed) "resume g fuel store cid payload = settle store cid (drive g fuel True nxt st)"
    by blast
  then show ?thesis
  proof cases
    case raised
    with assms show ?thesis by auto
  next
    case human
    let ?st1 = "apply_update st update"
    let ?r = "emit (ask_user, ?st1) (drive g fuel False agent ?st1)"
    have p: "prefix (messages st) (messages ?st1)" by (simp add: messages_apply_update)
    have "append_only (messages ?st1 # map (messages \<circ> snd) (fst (drive g fuel False agent ?st1)))"
      by (rule drive_append_only)
    with p have a: "append_only (messages st # map (messages \<circ> snd) (fst ?r))"
      by (simp add: fst_emit)
    have "prefix (messages ?st1) (messages (snd (snd (drive g fuel False agent ?st1))))"
      by (rule drive_extends)
    with p have b: "prefix (messages st) (messages (snd (snd ?r)))"
      by (simp add: snd_emit prefix_order.trans [of "messages st" "messages ?st1"])
    from human(2) assms(2) have "settle store cid ?r = (store', response, trace)" by simp
    from settle_append_only [OF ck a b this] show ?thesis .
  next
    case proceed
    with assms(2) have "settle store cid (drive g fuel True nxt st) = (store', response, trace)"
      by simp
    from settle_append_only [OF ck drive_append_only drive_extends this] show ?thesis .
  qed
qed

theorem resumed_run_is_append_only_witness:
  "load (fst (run (ask_user_graph ask_then_search_llm example_tools) 3 Map.empty ''1''
                ''What is the weather?'')) ''1''
     = Some (\<lparr>messages = [HumanMessage ''What is the weather?'',
               AIMessage '''' [ask_call, search_call]]\<rparr>, ask_user)
   \<and> append_only
        ([HumanMessage ''What is the weather?'', AIMessage '''' [ask_call, search_call]]
         # map (messages \<circ> snd)
             (snd (snd (resume (ask_user_graph ask_then_search_llm example_tools) 3
                (fst (run (ask_user_graph ask_then_search_llm example_tools) 3 Map.empty ''1''
                        ''What is the weather?''))
                ''1'' (Some ''For Singapore'')))))"
  using resumed_run_is_append_only
    [of "fst (run (ask_user_graph ask_then_search_llm example_tools) 3 Map.empty ''1''
                ''What is the weather?'')" "''1''"
        "\<lparr>messages = [HumanMessage ''What is the weather?'',
               AIMessage '''' [ask_call, search_call]]\<rparr>" ask_user
        "ask_user_graph ask_then_search_llm example_tools" 3 "Some ''For Singapore''"
        "fst (resume (ask_user_graph ask_then_search_llm example_tools) 3
                (fst (run (ask_user_graph ask_then_search_llm example_tools) 3 Map.empty ''1''
                        ''What is the weather?''))
                ''1'' (Some ''For Singapore''))"
        "fst (snd (resume (ask_user_graph ask_then_search_llm example_tools) 3
                (fst (run (ask_user_graph ask_then_search_llm example_tools) 3 Map.empty ''1''
                        ''What is the weather?''))
                ''1'' (Some ''For Singapore'')))"
        "snd (snd (resume (ask_user_graph ask_then_search_llm example_tools) 3
                (fst (run (ask_user_graph ask_then_search_llm example_tools) 3 Map.empty ''1''
                        ''What is the weather?''))
                ''1'' (Some ''For Singapore'')))"]
  by (simp add: engine_defs ask_call_def search_call_def example_tools_def
        ask_then_search_llm_def ask_user_graph_def eval_nat_numeral)

section \<open>Isolation of conversations\<close>

text \<open>
  C7: for distinct conversation identifiers \<open>a\<close> and \<open>b\<close>, any sequence of runs
  and resumes under \<open>a\<close> (with the tool executions they carry out) leaves what
  \<open>load\<close> returns for \<open>b\<close> unchanged.
\<close>

theorem conversation_isolation:
  assumes "a \<noteq> b"
  shows "load (fold (\<lambda>(fuel, req). serve g fuel a req) reqs store) b = load store b"
proof (induction reqs arbitrary: store)
  case Nil
  show ?case by simp
next
  case (Cons r reqs)
  obtain fuel req where r: "r = (fuel, req)" by (cases r)
  have "load (serve g fuel a req store) b = load store b"
    using assms by (simp add: load_def serve_other)
  with Cons [of "serve g fuel a req store"] r show ?case by simp
qed

theorem conversation_isolation_witness:
  "''user_1'' \<noteq> ''user_2''
   \<and> load (fold (\<lambda>(fuel, req). serve (approval_graph search_llm example_tools) fuel ''user_1'' req)
             [(3, Run ''Hi. My name is Sajal. What is the weather?''), (3, Resume None)]
             (fst (run (approval_graph search_llm example_tools) 3 Map.empty ''user_2''
                     ''What is my name?''))) ''user_2''
     = load (fst (run (approval_graph search_llm example_tools) 3 Map.empty ''user_2''
                     ''What is my name?'')) ''user_2''"
  using conversation_isolation
    [of "''user_1''" "''user_2''" "approval_graph search_llm example_tools"
        "[(3, Run ''Hi. My name is Sajal. What is the weather?''), (3, Resume None)]"
        "fst (run (approval_graph search_llm example_tools) 3 Map.empty ''user_2''
                     ''What is my name?'')"]
  by simp

end
